theory Spec2Isabelle
  imports Main "HOL-Library.Word"
begin

section \<open>The hopper block of server/block/hopper.go\<close>

text \<open>
  The development embeds \<^verbatim>\<open>server/block/hopper.go\<close>: the tick handler with its two
  cooldown counters, the one-unit transfer into the container the hopper faces
  (\<^verbatim>\<open>insertItem\<close>) and out of the container above it (\<^verbatim>\<open>extractItem\<close>), the NBT
  encoder and decoder, and placement. The packages the file imports (\<^verbatim>\<open>cube\<close>,
  \<^verbatim>\<open>item\<close>, \<^verbatim>\<open>inventory\<close>, \<^verbatim>\<open>world\<close>, \<^verbatim>\<open>nbtconv\<close>) are not part of the
  sources at hand; what the hopper needs from them is modelled from the specification
  and marked so at each definition.
\<close>

subsection \<open>Faces and positions (package cube)\<close>

datatype Face = FaceDown | FaceUp | FaceNorth | FaceSouth | FaceWest | FaceEast

text \<open>
  Modelled from the spec: \<^verbatim>\<open>cube.Face.Opposite\<close> is missing from the sources. The spec
  speaks of the six axis-aligned directions and of an instance "oriented opposite to the
  face clicked"; each face is paired with the one on the same axis.
\<close>

fun Opposite :: "Face \<Rightarrow> Face" where
  "Opposite FaceDown = FaceUp"
| "Opposite FaceUp = FaceDown"
| "Opposite FaceNorth = FaceSouth"
| "Opposite FaceSouth = FaceNorth"
| "Opposite FaceWest = FaceEast"
| "Opposite FaceEast = FaceWest"

type_synonym Pos = "int \<times> int \<times> int"

text \<open>
  Modelled from the spec: \<^verbatim>\<open>cube.Pos.Side\<close> is missing from the sources. The spec names
  "two fixed relative positions (directly above, and the block's facing direction)": the
  neighbour of a position one step along the face's axis.
\<close>

fun Side :: "Pos \<Rightarrow> Face \<Rightarrow> Pos" where
  "Side (x, y, z) FaceDown = (x, y - 1, z)"
| "Side (x, y, z) FaceUp = (x, y + 1, z)"
| "Side (x, y, z) FaceNorth = (x, y, z - 1)"
| "Side (x, y, z) FaceSouth = (x, y, z + 1)"
| "Side (x, y, z) FaceWest = (x - 1, y, z)"
| "Side (x, y, z) FaceEast = (x + 1, y, z)"

subsection \<open>Item stacks (package item)\<close>

text \<open>
  Modelled from the spec: \<^verbatim>\<open>item.Stack\<close> is missing from the sources. The glossary
  has a stack as "a quantity of one item type plus metadata, with a maximum count". An
  item type carries its name, its metadata and its maximum count; a stack is an item type
  (absent in the zero value \<^verbatim>\<open>item.Stack{}\<close>) and a count that is never negative.
\<close>

datatype ItemType = ItemType (item_name: string) (item_meta: int) (item_max: nat)

record Stack =
  Item :: "ItemType option"
  Count :: nat

definition emptyStack :: Stack where
  "emptyStack = \<lparr>Item = None, Count = 0\<rparr>"

definition Empty :: "Stack \<Rightarrow> bool" where
  "Empty s = (Count s = 0 \<or> Item s = None)"

definition MaxCount :: "Stack \<Rightarrow> nat" where
  "MaxCount s = (case Item s of None \<Rightarrow> 64 | Some t \<Rightarrow> item_max t)"

text \<open>
  Modelled from the spec: \<^verbatim>\<open>Grow\<close> changes the quantity by a signed amount ("grow-by-one
  semantics", "decrement the source slot by one unit"); the count stops at zero.
\<close>

definition Grow :: "Stack \<Rightarrow> int \<Rightarrow> Stack" where
  "Grow s n = s\<lparr>Count := nat (int (Count s) + n)\<rparr>"

text \<open>
  Modelled from the spec: two stacks are stack-compatible when they have the "same item
  identity and metadata". The hopper places a unit directly into an empty target slot
  after the comparison has passed, so an empty stack is compatible with every stack.
\<close>

definition Comparable :: "Stack \<Rightarrow> Stack \<Rightarrow> bool" where
  "Comparable s s2 = (Empty s \<or> Empty s2 \<or> Item s = Item s2)"

text \<open>
  Modelled from the spec: \<^verbatim>\<open>AddStack\<close> pours the second stack into the first as far as
  the maximum count of the first allows, and returns both.
\<close>

definition AddStack :: "Stack \<Rightarrow> Stack \<Rightarrow> Stack \<times> Stack" where
  "AddStack s s2 =
     (if \<not> Comparable s s2 then (s, s2)
      else if MaxCount s \<le> Count s then (s, s2)
      else let diff = min (MaxCount s - Count s) (Count s2)
           in (s\<lparr>Count := Count s + diff\<rparr>, s2\<lparr>Count := Count s2 - diff\<rparr>))"

text \<open>The number of item units a slot holds: an empty stack holds none.\<close>

definition units :: "Stack \<Rightarrow> nat" where
  "units s = (if Empty s then 0 else Count s)"


subsection \<open>Inventories (package inventory)\<close>

text \<open>
  Modelled from the spec: \<^verbatim>\<open>inventory.Inventory\<close> is missing from the sources. The spec
  gives the container capability as "slots() \<rightarrow> ordered sequence of (index, stack),
  item(index) \<rightarrow> stack, setItem(index, stack) \<rightarrow> error|ok, addItem(stack) \<rightarrow>
  remainder|error-if-full". An inventory is its ordered list of slots. \<^verbatim>\<open>SetItem\<close> and
  \<^verbatim>\<open>Item\<close> fail on an index that is not a slot (\<open>None\<close> is the error).
\<close>

definition SetItem :: "Stack list \<Rightarrow> int \<Rightarrow> Stack \<Rightarrow> Stack list option" where
  "SetItem slots slot it =
     (if 0 \<le> slot \<and> slot < int (length slots) then Some (slots[nat slot := it]) else None)"

definition ItemAt :: "Stack list \<Rightarrow> int \<Rightarrow> Stack option" where
  "ItemAt slots slot =
     (if 0 \<le> slot \<and> slot < int (length slots) then Some (slots ! nat slot) else None)"

text \<open>
  Modelled from the spec: \<^verbatim>\<open>AddItem\<close> first tops up the stacks already present, slot by
  slot in index order, then fills the empty slots, and stops as soon as nothing is left
  to add. A slot that takes nothing is left as it is. The result is the new slots, the
  number of units added, and whether an error is reported because not everything fitted.
\<close>

fun addExisting :: "Stack list \<Rightarrow> Stack \<Rightarrow> Stack list \<times> Stack" where
  "addExisting [] it = ([], it)"
| "addExisting (invIt # rest) it =
     (if Empty it then (invIt # rest, it)
      else if Empty invIt then
        (case addExisting rest it of (rest', it') \<Rightarrow> (invIt # rest', it'))
      else
        (case AddStack invIt it of (a, b) \<Rightarrow>
           if Count it = Count b then
             (case addExisting rest it of (rest', it') \<Rightarrow> (invIt # rest', it'))
           else
             (case addExisting rest b of (rest', it') \<Rightarrow> (a # rest', it'))))"

fun addEmpty :: "Stack list \<Rightarrow> Stack \<Rightarrow> Stack list \<times> Stack" where
  "addEmpty [] it = ([], it)"
| "addEmpty (invIt # rest) it =
     (if Empty it then (invIt # rest, it)
      else if Empty invIt then
        (case AddStack (Grow it (- int (Count it))) it of (a, b) \<Rightarrow>
           if Count it = Count b then
             (case addEmpty rest it of (rest', it') \<Rightarrow> (invIt # rest', it'))
           else
             (case addEmpty rest b of (rest', it') \<Rightarrow> (a # rest', it')))
      else
        (case addEmpty rest it of (rest', it') \<Rightarrow> (invIt # rest', it')))"

definition AddItem :: "Stack list \<Rightarrow> Stack \<Rightarrow> Stack list \<times> nat \<times> bool" where
  "AddItem slots it =
     (if Empty it then (slots, 0, False)
      else case addExisting slots it of (slots1, it1) \<Rightarrow>
        if Empty it1 then (slots1, Count it, False)
        else case addEmpty slots1 it1 of (slots2, it2) \<Rightarrow>
          if Empty it2 then (slots2, Count it, False)
          else (slots2, Count it - Count it2, True))"

subsection \<open>The store of inventories and viewer sets\<close>

text \<open>
  A hopper value is copied freely, while its inventory and its viewer map are shared by
  reference. The store holds what the references point to: the slots of every inventory
  and the members of every viewer map, and the next unused reference. A viewer is known
  by a number.
\<close>

record Heap =
  inventories :: "nat \<Rightarrow> Stack list"
  viewer_sets :: "nat \<Rightarrow> nat set"
  next_ref :: nat

text \<open>
  \<^verbatim>\<open>inv.SetItem(slot, stack)\<close> on the inventory behind a reference: the store after the
  call and whether the call reported an error.
\<close>

definition inv_SetItem :: "nat \<Rightarrow> int \<Rightarrow> Stack \<Rightarrow> Heap \<Rightarrow> bool \<times> Heap" where
  "inv_SetItem r slot it hp =
     (case SetItem (inventories hp r) slot it of
        None \<Rightarrow> (True, hp)
      | Some slots' \<Rightarrow> (False, hp\<lparr>inventories := (inventories hp)(r := slots')\<rparr>))"

text \<open>\<^verbatim>\<open>inv.AddItem(stack)\<close> on the inventory behind a reference.\<close>

definition inv_AddItem :: "nat \<Rightarrow> Stack \<Rightarrow> Heap \<Rightarrow> (nat \<times> bool) \<times> Heap" where
  "inv_AddItem r it hp =
     (case AddItem (inventories hp r) it of
        (slots', n, err) \<Rightarrow> ((n, err), hp\<lparr>inventories := (inventories hp)(r := slots')\<rparr>))"

text \<open>
  \<^verbatim>\<open>inv.Item(slot)\<close> as the hopper uses it, with the error dropped: the zero stack comes
  back for an index that is not a slot.
\<close>

definition inv_Item :: "nat \<Rightarrow> int \<Rightarrow> Heap \<Rightarrow> Stack" where
  "inv_Item r slot hp =
     (case ItemAt (inventories hp r) slot of None \<Rightarrow> emptyStack | Some it \<Rightarrow> it)"

subsection \<open>The hopper\<close>

text \<open>
  The struct \<^verbatim>\<open>Hopper\<close>. The three counters are \<^verbatim>\<open>int64\<close>. The inventory pointer and
  the viewer map are references into the store, \<open>None\<close> being \<^verbatim>\<open>nil\<close> (as in the
  hoppers that \<^verbatim>\<open>allHoppers\<close> registers). The mutex guards the viewer map against
  concurrent access and has no counterpart in this sequential model.
\<close>

record Hopper =
  Facing :: Face
  Powered :: bool
  CustomName :: string
  LastTick :: "64 word"
  TransferCooldown :: "64 word"
  CollectCooldown :: "64 word"
  inventory :: "nat option"
  viewers :: "nat option"

text \<open>
  \<^verbatim>\<open>NewHopper\<close> allocates a fresh viewer map and a fresh inventory of five slots (in the
  model both live under the next unused reference); every other field has its zero value.
\<close>

definition NewHopper :: "Heap \<Rightarrow> Hopper \<times> Heap" where
  "NewHopper hp =
     (let r = next_ref hp in
      (\<lparr>Facing = FaceDown, Powered = False, CustomName = [], LastTick = 0,
        TransferCooldown = 0, CollectCooldown = 0, inventory = Some r, viewers = Some r\<rparr>,
       hp\<lparr>inventories := (inventories hp)(r := replicate 5 emptyStack),
          viewer_sets := (viewer_sets hp)(r := {}),
          next_ref := Suc r\<rparr>))"

text \<open>
  \<^verbatim>\<open>AddViewer\<close> and \<^verbatim>\<open>RemoveViewer\<close> update the shared viewer map; on a hopper without
  one the Go code panics (\<open>None\<close>).
\<close>

definition AddViewer :: "Hopper \<Rightarrow> nat \<Rightarrow> Heap \<Rightarrow> Heap option" where
  "AddViewer h v hp =
     (case viewers h of
        None \<Rightarrow> None
      | Some r \<Rightarrow> Some (hp\<lparr>viewer_sets := (viewer_sets hp)(r := insert v (viewer_sets hp r))\<rparr>))"

definition RemoveViewer :: "Hopper \<Rightarrow> nat \<Rightarrow> Heap \<Rightarrow> Heap option" where
  "RemoveViewer h v hp =
     (case viewers h of
        None \<Rightarrow> None
      | Some r \<Rightarrow> Some (hp\<lparr>viewer_sets := (viewer_sets hp)(r := viewer_sets hp r - {v})\<rparr>))"

subsection \<open>Blocks and the world (package world)\<close>

text \<open>
  Modelled from the spec: the world and the container blocks next to a hopper are missing
  from the sources. The spec gives the world as "blockAt(position) \<rightarrow> block,
  setBlock(position, block)" and a neighbour as offering a capability set: none, the
  basic container, or the "specialized" insertion and extraction capabilities. A
  container block answers \<^verbatim>\<open>Inventory\<close> with a reference (\<open>None\<close> is \<^verbatim>\<open>nil\<close>), and may
  implement \<^verbatim>\<open>InsertItem\<close> (\<^verbatim>\<open>HopperInsertable\<close>) and \<^verbatim>\<open>ExtractItem\<close>
  (\<^verbatim>\<open>HopperExtractable\<close>). Both methods only report, as their interface comments in
  hopper.go say: they read the store and do not change it.
\<close>

record Container =
  Inventory :: "nat option"
  InsertItem :: "(Heap \<Rightarrow> Stack \<Rightarrow> Face \<Rightarrow> bool \<times> int) option"
  ExtractItem :: "(Heap \<Rightarrow> Stack \<times> int) option"

datatype Block = HopperBlock Hopper | ContainerBlock Container | OtherBlock

record World =
  blocks :: "Pos \<Rightarrow> Block"
  heap :: Heap

definition SetBlock :: "Pos \<Rightarrow> Block \<Rightarrow> World \<Rightarrow> World" where
  "SetBlock pos b w = w\<lparr>blocks := (blocks w)(pos := b)\<rparr>"

text \<open>
  The type assertion \<^verbatim>\<open>w.Block(p).(Container)\<close>. A hopper is a container through its
  method \<^verbatim>\<open>Inventory\<close>, which returns \<^verbatim>\<open>h.inventory\<close>; it implements neither of the two
  special capabilities.
\<close>

fun asContainer :: "Block \<Rightarrow> Container option" where
  "asContainer (HopperBlock h) =
     Some \<lparr>Inventory = inventory h, InsertItem = None, ExtractItem = None\<rparr>"
| "asContainer (ContainerBlock c) = Some c"
| "asContainer OtherBlock = None"

subsection \<open>insertItem\<close>

text \<open>
  The loop of \<^verbatim>\<open>insertItem\<close> over \<^verbatim>\<open>h.inventory.Slots()\<close>, a copy of the slots taken
  before the loop starts. \<open>src\<close> is the hopper's own inventory, \<open>dest\<close> the container
  faced and \<open>dst\<close> its inventory, \<open>sourceSlot\<close> the index of the first slot of the
  list. A destination without the insertion capability gets one unit through \<^verbatim>\<open>AddItem\<close>,
  and an error moves the scan on; otherwise the destination is asked through
  \<^verbatim>\<open>InsertItem\<close>, and the unit is written to the slot it names. The errors of \<^verbatim>\<open>Item\<close>
  and of the two \<^verbatim>\<open>SetItem\<close> calls are dropped, as in the source.
\<close>

fun insertSlots ::
  "Hopper \<Rightarrow> nat \<Rightarrow> Container \<Rightarrow> nat \<Rightarrow> nat \<Rightarrow> Stack list \<Rightarrow> Heap \<Rightarrow> bool \<times> Heap" where
  "insertSlots h src dest dst sourceSlot [] hp = (False, hp)"
| "insertSlots h src dest dst sourceSlot (sourceStack # rest) hp =
     (if Empty sourceStack then insertSlots h src dest dst (Suc sourceSlot) rest hp
      else case InsertItem dest of
        None \<Rightarrow>
          (case inv_AddItem dst (Grow sourceStack (- int (Count sourceStack) + 1)) hp of
             ((n, err), hp1) \<Rightarrow>
               if err then insertSlots h src dest dst (Suc sourceSlot) rest hp1
               else (True, snd (inv_SetItem src (int sourceSlot) (Grow sourceStack (- 1)) hp1)))
      | Some e \<Rightarrow>
          (let stack = Grow sourceStack (- int (Count sourceStack) + 1) in
           case e hp stack (Facing h) of
             (allowed, targetSlot) \<Rightarrow>
               (let it = inv_Item dst targetSlot hp in
                if \<not> allowed \<or> \<not> Comparable sourceStack it
                then insertSlots h src dest dst (Suc sourceSlot) rest hp
                else
                  (let stack' = (if \<not> Empty it then Grow it 1 else stack);
                       hp1 = snd (inv_SetItem dst targetSlot stack' hp)
                   in (True, snd (inv_SetItem src (int sourceSlot) (Grow sourceStack (- 1)) hp1))))))"

text \<open>
  \<^verbatim>\<open>insertItem\<close>: \<open>None\<close> is the panic of the Go code when a hopper without an inventory
  reaches \<^verbatim>\<open>h.inventory.Slots()\<close>. The result is what the call returns and the world
  after it.
\<close>

definition insertItem :: "Hopper \<Rightarrow> Pos \<Rightarrow> World \<Rightarrow> (bool \<times> World) option" where
  "insertItem h pos w =
     (case asContainer (blocks w (Side pos (Facing h))) of
        None \<Rightarrow> Some (False, w)
      | Some dest \<Rightarrow>
          (case Inventory dest of
             None \<Rightarrow> Some (False, w)
           | Some dst \<Rightarrow>
               (case inventory h of
                  None \<Rightarrow> None
                | Some src \<Rightarrow>
                    (case insertSlots h src dest dst 0 (inventories (heap w) src) (heap w) of
                       (moved, hp') \<Rightarrow> Some (moved, w\<lparr>heap := hp'\<rparr>)))))"

subsection \<open>extractItem\<close>

text \<open>
  The scan of the origin's slots for the first stack that is not empty; the variables
  \<^verbatim>\<open>targetStack\<close> and \<^verbatim>\<open>targetSlot\<close> keep their zero values when there is none.
\<close>

fun firstNonEmpty :: "nat \<Rightarrow> Stack list \<Rightarrow> Stack \<times> int" where
  "firstNonEmpty slot [] = (emptyStack, 0)"
| "firstNonEmpty slot (stack # rest) =
     (if Empty stack then firstNonEmpty (Suc slot) rest else (stack, int slot))"

text \<open>
  \<^verbatim>\<open>extractItem\<close>: \<open>None\<close> is the panic of the Go code when a hopper without an
  inventory reaches \<^verbatim>\<open>h.inventory.AddItem\<close>.
\<close>

definition extractItem :: "Hopper \<Rightarrow> Pos \<Rightarrow> World \<Rightarrow> (bool \<times> World) option" where
  "extractItem h pos w =
     (case asContainer (blocks w (Side pos FaceUp)) of
        None \<Rightarrow> Some (False, w)
      | Some origin \<Rightarrow>
          (case Inventory origin of
             None \<Rightarrow> Some (False, w)
           | Some org \<Rightarrow>
               (case (case ExtractItem origin of
                        None \<Rightarrow> firstNonEmpty 0 (inventories (heap w) org)
                      | Some e \<Rightarrow> e (heap w)) of
                  (targetStack, targetSlot) \<Rightarrow>
                    if Empty targetStack then Some (False, w)
                    else
                      (case inventory h of
                         None \<Rightarrow> None
                       | Some own \<Rightarrow>
                           (case inv_AddItem own
                                   (Grow targetStack (- int (Count targetStack) + 1)) (heap w) of
                              ((n, err), hp1) \<Rightarrow>
                                if err then Some (False, w\<lparr>heap := hp1\<rparr>)
                                else Some (True,
                                  w\<lparr>heap := snd (inv_SetItem org targetSlot
                                                   (Grow targetStack (- 1)) hp1)\<rparr>))))))"

subsection \<open>Tick\<close>

text \<open>
  \<^verbatim>\<open>Tick\<close> works on its own copy of the hopper and hands it to the world with
  \<^verbatim>\<open>w.SetBlock\<close>. The counters are \<^verbatim>\<open>int64\<close>: the decrement wraps around and the
  comparison with zero is signed. Both transfer calls are made before their results are
  combined. \<open>None\<close> is a panic of one of the two calls.
\<close>

definition Tick :: "Hopper \<Rightarrow> 64 word \<Rightarrow> Pos \<Rightarrow> World \<Rightarrow> World option" where
  "Tick h currentTick pos w =
     (let h1 = h\<lparr>TransferCooldown := TransferCooldown h - 1,
                 CollectCooldown := CollectCooldown h - 1,
                 LastTick := currentTick\<rparr>
      in if 0 \<le> sint (TransferCooldown h1) \<or> 0 \<le> sint (CollectCooldown h1)
         then Some (SetBlock pos (HopperBlock h1) w)
         else
           (let h2 = h1\<lparr>TransferCooldown := 0, CollectCooldown := 0\<rparr>
            in if Powered h2 then Some (SetBlock pos (HopperBlock h2) w)
               else
                 (case insertItem h2 pos w of
                    None \<Rightarrow> None
                  | Some (inserted, w1) \<Rightarrow>
                      (case extractItem h2 pos w1 of
                         None \<Rightarrow> None
                       | Some (extracted, w2) \<Rightarrow>
                           if inserted \<or> extracted
                           then Some (SetBlock pos (HopperBlock (h2\<lparr>TransferCooldown := 8\<rparr>)) w2)
                           else Some w2))))"

text \<open>
  Modelled from the spec: the simulation loop is missing from the sources. "Each tick,
  the simulation loop calls into the Tick State Machine with the current tick number and
  the block's location": the block stored at the position is ticked when it is a hopper,
  and a run of ticks does so for each tick number in turn.
\<close>

definition tickBlock :: "64 word \<Rightarrow> Pos \<Rightarrow> World \<Rightarrow> World option" where
  "tickBlock currentTick pos w =
     (case blocks w pos of
        HopperBlock h \<Rightarrow> Tick h currentTick pos w
      | _ \<Rightarrow> Some w)"

fun tickRun :: "64 word list \<Rightarrow> Pos \<Rightarrow> World \<Rightarrow> World option" where
  "tickRun [] pos w = Some w"
| "tickRun (t # ts) pos w =
     (case tickBlock t pos w of None \<Rightarrow> None | Some w' \<Rightarrow> tickRun ts pos w')"

subsection \<open>Persistence (package nbtconv)\<close>

text \<open>
  Modelled from the spec: the package \<^verbatim>\<open>nbtconv\<close> is missing from the sources. The
  persisted field set is "a flat mapping of field name to primitive value (Items,
  TransferCooldown, CustomName?, type tag)". A field holds a byte, a 32-bit integer, a
  string, or the list of the inventory's entries. An entry is a slot number, written as
  a byte, with the stack stored there; how a single stack is laid out in fields is left
  to the generic item encoder and is not modelled.
\<close>

datatype NBT =
    NBTByte "8 word"
  | NBTInt32 "32 word"
  | NBTString string
  | NBTItems "(8 word \<times> Stack) list"

type_synonym Fields = "string \<Rightarrow> NBT option"

text \<open>
  Modelled from the spec: the readers "tolerate a missing label field (defaults to
  empty) and a missing cooldown field (defaults to 0)"; a field of another type counts as
  missing.
\<close>

definition nbt_String :: "Fields \<Rightarrow> string \<Rightarrow> string" where
  "nbt_String data key = (case data key of Some (NBTString v) \<Rightarrow> v | _ \<Rightarrow> [])"

definition nbt_Int32 :: "Fields \<Rightarrow> string \<Rightarrow> 32 word" where
  "nbt_Int32 data key = (case data key of Some (NBTInt32 v) \<Rightarrow> v | _ \<Rightarrow> 0)"

definition nbt_Slice :: "Fields \<Rightarrow> string \<Rightarrow> (8 word \<times> Stack) list" where
  "nbt_Slice data key = (case data key of Some (NBTItems v) \<Rightarrow> v | _ \<Rightarrow> [])"

text \<open>
  Modelled from the spec: the "generic inventory encoder" writes one entry for each slot
  that is not empty, in index order; decoding "replays inventory contents" into the
  container, entry by entry, skipping an empty stack and an entry whose slot the
  container does not have.
\<close>

fun InvToNBT_from :: "nat \<Rightarrow> Stack list \<Rightarrow> (8 word \<times> Stack) list" where
  "InvToNBT_from index [] = []"
| "InvToNBT_from index (i # rest) =
     (if Empty i then InvToNBT_from (Suc index) rest
      else (of_nat index, i) # InvToNBT_from (Suc index) rest)"

definition InvToNBT :: "Stack list \<Rightarrow> (8 word \<times> Stack) list" where
  "InvToNBT slots = InvToNBT_from 0 slots"

fun InvFromNBT :: "Stack list \<Rightarrow> (8 word \<times> Stack) list \<Rightarrow> Stack list" where
  "InvFromNBT slots [] = slots"
| "InvFromNBT slots ((slot, it) # items) =
     (if Empty it then InvFromNBT slots items
      else InvFromNBT (case SetItem slots (int (unat slot)) it of
                         None \<Rightarrow> slots
                       | Some slots' \<Rightarrow> slots') items)"

text \<open>
  \<^verbatim>\<open>EncodeNBT\<close>. A hopper without an inventory is first replaced by a new hopper that
  keeps its facing, powered flag and name. The cooldown is cut to 32 bits. The result is
  the field set and the store (which changes only by the allocation of that new
  hopper); \<open>None\<close> would be a \<^verbatim>\<open>nil\<close> inventory reaching the inventory encoder.
\<close>

definition EncodeNBT :: "Hopper \<Rightarrow> Heap \<Rightarrow> (Fields \<times> Heap) option" where
  "EncodeNBT h hp =
     (case (if inventory h = None
            then (case NewHopper hp of
                    (n, hp1) \<Rightarrow>
                      (n\<lparr>Facing := Facing h, Powered := Powered h, CustomName := CustomName h\<rparr>,
                       hp1))
            else (h, hp)) of
        (h', hp') \<Rightarrow>
          (case inventory h' of
             None \<Rightarrow> None
           | Some r \<Rightarrow>
               (let m = [''Items'' \<mapsto> NBTItems (InvToNBT (inventories hp' r)),
                         ''TransferCooldown'' \<mapsto> NBTInt32 (ucast (TransferCooldown h')),
                         ''id'' \<mapsto> NBTString ''Hopper'']
                in Some (if CustomName h' \<noteq> []
                         then m(''CustomName'' \<mapsto> NBTString (CustomName h'))
                         else m,
                         hp'))))"

text \<open>
  \<^verbatim>\<open>DecodeNBT\<close>. The receiver gives its facing and powered flag; everything else comes
  from a new hopper and the fields. The 32-bit cooldown is sign-extended to 64 bits.
\<close>

definition DecodeNBT :: "Hopper \<Rightarrow> Fields \<Rightarrow> Heap \<Rightarrow> (Hopper \<times> Heap) option" where
  "DecodeNBT h data hp =
     (let facing = Facing h; powered = Powered h in
      case NewHopper hp of
        (n, hp1) \<Rightarrow>
          (let h' = n\<lparr>Facing := facing, Powered := powered,
                      CustomName := nbt_String data ''CustomName'',
                      TransferCooldown := scast (nbt_Int32 data ''TransferCooldown'')\<rparr>
           in case inventory h' of
                None \<Rightarrow> None
              | Some r \<Rightarrow>
                  Some (h', hp1\<lparr>inventories := (inventories hp1)
                                  (r := InvFromNBT (inventories hp1 r) (nbt_Slice data ''Items''))\<rparr>)))"

subsection \<open>Placement\<close>

text \<open>
  \<^verbatim>\<open>UseOnBlock\<close>. The helpers \<^verbatim>\<open>firstReplaceable\<close>, \<^verbatim>\<open>place\<close> and \<^verbatim>\<open>placed\<close> are
  missing from the sources. \<^verbatim>\<open>firstReplaceable\<close> is a parameter: any function from the
  world, the position and the face clicked to a position and whether it can be used.
  Modelled from the spec: \<^verbatim>\<open>place\<close> hands the block to the world at the position when
  the user's placement goes through (the parameter \<open>permitted\<close>), and \<^verbatim>\<open>placed\<close> reports
  whether it did. The result is what the call returns and the world after it.
\<close>

definition place :: "bool \<Rightarrow> Pos \<Rightarrow> Block \<Rightarrow> World \<Rightarrow> World" where
  "place permitted pos b w = (if permitted then SetBlock pos b w else w)"

definition UseOnBlock ::
  "(World \<Rightarrow> Pos \<Rightarrow> Face \<Rightarrow> Pos \<times> bool) \<Rightarrow> bool \<Rightarrow> Hopper \<Rightarrow> Pos \<Rightarrow> Face \<Rightarrow> World
     \<Rightarrow> bool \<times> World" where
  "UseOnBlock firstReplaceable permitted h pos face w =
     (case firstReplaceable w pos face of
        (pos', used) \<Rightarrow>
          if \<not> used then (False, w)
          else
            (case NewHopper (heap w) of
               (n, hp1) \<Rightarrow>
                 (let h1 = n\<lparr>Facing := FaceDown\<rparr>;
                      h2 = (if Facing h1 \<noteq> face then h1\<lparr>Facing := Opposite face\<rparr> else h1)
                  in (permitted, place permitted pos' (HopperBlock h2) (w\<lparr>heap := hp1\<rparr>)))))"

section \<open>Notions used to state the properties\<close>

text \<open>
  One slot of the inventory \<open>slots\<close> gains exactly one unit of the item \<open>t\<close>, and every
  other slot stays as it is.
\<close>

definition gainsOne :: "Stack list \<Rightarrow> Stack list \<Rightarrow> ItemType option \<Rightarrow> bool" where
  "gainsOne slots slots' t =
     (\<exists>j<length slots. \<exists>x. slots' = slots[j := x] \<and> units x = units (slots ! j) + 1 \<and> Item x = t)"




text \<open>The hopper that a world stores at a position after a tick, and the viewers a hopper has.\<close>

definition publishedHopper :: "Pos \<Rightarrow> World option \<Rightarrow> Hopper option" where
  "publishedHopper pos r =
     (case r of
        None \<Rightarrow> None
      | Some w \<Rightarrow> (case blocks w pos of HopperBlock h \<Rightarrow> Some h | _ \<Rightarrow> None))"

definition viewersOf :: "Hopper \<times> Heap \<Rightarrow> nat set" where
  "viewersOf p = (case viewers (fst p) of None \<Rightarrow> {} | Some r \<Rightarrow> viewer_sets (snd p) r)"


text \<open>
  The three stages of the hopper inside \<^verbatim>\<open>Tick\<close>: after the decrement of both counters
  and the update of \<^verbatim>\<open>LastTick\<close>; after both counters are set to zero; and the test the
  tick makes on the decremented counters, true when one of them is still at least zero.
\<close>

definition decremented :: "Hopper \<Rightarrow> 64 word \<Rightarrow> Hopper" where
  "decremented h currentTick =
     h\<lparr>TransferCooldown := TransferCooldown h - 1,
       CollectCooldown := CollectCooldown h - 1,
       LastTick := currentTick\<rparr>"

definition clamped :: "Hopper \<Rightarrow> 64 word \<Rightarrow> Hopper" where
  "clamped h currentTick =
     (decremented h currentTick)\<lparr>TransferCooldown := 0, CollectCooldown := 0\<rparr>"

definition cooling :: "Hopper \<Rightarrow> bool" where
  "cooling h = (0 \<le> sint (TransferCooldown h - 1) \<or> 0 \<le> sint (CollectCooldown h - 1))"

text \<open>
  What a slot holds after its inventory was written out and read back: an empty stack is
  not written, so it comes back as the zero value.
\<close>

definition clean :: "Stack \<Rightarrow> Stack" where
  "clean s = (if Empty s then emptyStack else s)"

section \<open>Example worlds\<close>

definition exCoal :: ItemType where
  "exCoal = ItemType ''minecraft:coal'' 0 64"

definition exIron :: ItemType where
  "exIron = ItemType ''minecraft:iron_ingot'' 0 64"

definition exStone :: ItemType where
  "exStone = ItemType ''minecraft:stone'' 0 64"

text \<open>A hopper facing down whose counters have run out; viewer 7 has its inventory open.\<close>

definition exHopper :: Hopper where
  "exHopper = \<lparr>Facing = FaceDown, Powered = False, CustomName = [], LastTick = 0,
      TransferCooldown = 0, CollectCooldown = 0, inventory = Some 0, viewers = Some 0\<rparr>"

text \<open>
  The hopper holds three coal in slot 0. Below it stands a block with the insertion
  capability that takes everything into slot 1 of its three slots; above it a plain
  container with five coal in slot 2.
\<close>

definition exHeap :: Heap where
  "exHeap = \<lparr>inventories = (\<lambda>r. [])
        (0 := [\<lparr>Item = Some exCoal, Count = 3\<rparr>, emptyStack, emptyStack, emptyStack, emptyStack],
         1 := [emptyStack, emptyStack, emptyStack],
         2 := [emptyStack, emptyStack, \<lparr>Item = Some exCoal, Count = 5\<rparr>]),
      viewer_sets = (\<lambda>r. {})(0 := {7}),
      next_ref = 3\<rparr>"

text \<open>The same store before viewer 7 opened the hopper.\<close>

definition exQuietHeap :: Heap where
  "exQuietHeap = exHeap\<lparr>viewer_sets := (\<lambda>r. {})\<rparr>"

definition exBelow :: Container where
  "exBelow = \<lparr>Inventory = Some 1, InsertItem = Some (\<lambda>hp stack face. (True, 1)),
      ExtractItem = None\<rparr>"

definition exAbove :: Container where
  "exAbove = \<lparr>Inventory = Some 2, InsertItem = None, ExtractItem = None\<rparr>"

definition exWorld :: World where
  "exWorld = \<lparr>blocks = (\<lambda>p. OtherBlock)
        ((0, 0, 0) := HopperBlock exHopper,
         (0, - 1, 0) := ContainerBlock exBelow,
         (0, 1, 0) := ContainerBlock exAbove),
      heap = exHeap\<rparr>"

text \<open>
  The same place with nothing to move: the hopper is full of iron, the plain container
  below is full of stone, and the one above holds coal, which the hopper has no room for.
\<close>

definition exFullHeap :: Heap where
  "exFullHeap = \<lparr>inventories = (\<lambda>r. [])
        (0 := [\<lparr>Item = Some exIron, Count = 64\<rparr>, \<lparr>Item = Some exIron, Count = 64\<rparr>,
               \<lparr>Item = Some exIron, Count = 64\<rparr>, \<lparr>Item = Some exIron, Count = 64\<rparr>,
               \<lparr>Item = Some exIron, Count = 64\<rparr>],
         1 := [\<lparr>Item = Some exStone, Count = 64\<rparr>],
         2 := [emptyStack, emptyStack, \<lparr>Item = Some exCoal, Count = 5\<rparr>]),
      viewer_sets = (\<lambda>r. {}),
      next_ref = 3\<rparr>"

definition exFullWorld :: World where
  "exFullWorld = \<lparr>blocks = (\<lambda>p. OtherBlock)
        ((0, 0, 0) := HopperBlock exHopper,
         (0, - 1, 0) := ContainerBlock \<lparr>Inventory = Some 1, InsertItem = None, ExtractItem = None\<rparr>,
         (0, 1, 0) := ContainerBlock exAbove),
      heap = exFullHeap\<rparr>"






text \<open>A persisted field set with a name.\<close>

definition exFields :: Fields where
  "exFields = [''Items'' \<mapsto> NBTItems [(0, \<lparr>Item = Some exCoal, Count = 3\<rparr>)],
               ''TransferCooldown'' \<mapsto> NBTInt32 5,
               ''id'' \<mapsto> NBTString ''Hopper'',
               ''CustomName'' \<mapsto> NBTString ''Bin'']"

section \<open>Adding one unit to an inventory\<close>

lemma addExisting_Empty: "Empty it \<Longrightarrow> addExisting slots it = (slots, it)"
  by (cases slots) simp_all

lemma addEmpty_Empty: "Empty it \<Longrightarrow> addEmpty slots it = (slots, it)"
  by (cases slots) simp_all

lemma gainsOne_Cons: "gainsOne rest rest' t \<Longrightarrow> gainsOne (s # rest) (s # rest') t"
proof -
  assume "gainsOne rest rest' t"
  then obtain j x where "j < length rest" "rest' = rest[j := x]"
    "units x = units (rest ! j) + 1" "Item x = t"
    unfolding gainsOne_def by blast
  then have "Suc j < length (s # rest) \<and> s # rest' = (s # rest)[Suc j := x] \<and>
             units x = units ((s # rest) ! Suc j) + 1 \<and> Item x = t" by simp
  then show ?thesis unfolding gainsOne_def by blast
qed

lemma gainsOne_here: "units a = units s + 1 \<Longrightarrow> Item a = t \<Longrightarrow> gainsOne (s # rest) (a # rest) t"
proof -
  assume "units a = units s + 1" "Item a = t"
  then have "0 < length (s # rest) \<and> a # rest = (s # rest)[0 := a] \<and>
             units a = units ((s # rest) ! 0) + 1 \<and> Item a = t" by simp
  then show ?thesis unfolding gainsOne_def by blast
qed

lemma AddStack_one:
  assumes "Count it = 1" "Item it \<noteq> None" "AddStack s it = (a, b)"
  shows "(a = s \<and> b = it) \<or>
         (Count b = 0 \<and> Count a = Suc (Count s) \<and> Item a = Item s \<and> (Empty s \<or> Item s = Item it))"
  using assms by (auto simp: AddStack_def Let_def Comparable_def Empty_def min_def split: if_splits)

lemma addExisting_one:
  assumes "Count it = 1" "Item it \<noteq> None" "addExisting slots it = (slots', it')"
  shows "(slots' = slots \<and> it' = it) \<or> (Empty it' \<and> gainsOne slots slots' (Item it))"
  using assms
proof (induction slots arbitrary: slots' it')
  case Nil
  then show ?case by simp
next
  case (Cons invIt rest)
  have ne: "\<not> Empty it" using Cons.prems by (simp add: Empty_def)
  obtain r' i' where r: "addExisting rest it = (r', i')" by (cases "addExisting rest it")
  note IH = Cons.IH[OF Cons.prems(1,2) r]
  obtain a b where ab: "AddStack invIt it = (a, b)" by (cases "AddStack invIt it")
  show ?case
  proof (cases "Empty invIt \<or> (a = invIt \<and> b = it)")
    case True
    with Cons.prems ne r ab have eq: "slots' = invIt # r'" "it' = i'"
      by (auto split: if_splits)
    with IH show ?thesis by (auto intro: gainsOne_Cons)
  next
    case False
    with AddStack_one[OF Cons.prems(1,2) ab]
    have moved: "Count b = 0" "Count a = Suc (Count invIt)" "Item a = Item invIt" "Item invIt = Item it"
      by auto
    then have eb: "Empty b" by (simp add: Empty_def)
    have "Count it \<noteq> Count b" using moved Cons.prems(1) by simp
    with Cons.prems False ne ab addExisting_Empty[OF eb, of rest]
    have eq: "slots' = a # rest" "it' = b" by auto
    have "units a = units invIt + 1" "Item a = Item it" using moved False by (auto simp: units_def Empty_def)
    then show ?thesis using eq eb by (simp add: gainsOne_here)
  qed
qed

lemma addEmpty_one:
  assumes "Count it = 1" "Item it \<noteq> None" "addEmpty slots it = (slots', it')"
  shows "(slots' = slots \<and> it' = it) \<or> (Empty it' \<and> gainsOne slots slots' (Item it))"
  using assms
proof (induction slots arbitrary: slots' it')
  case Nil
  then show ?case by simp
next
  case (Cons invIt rest)
  have ne: "\<not> Empty it" using Cons.prems by (simp add: Empty_def)
  obtain r' i' where r: "addEmpty rest it = (r', i')" by (cases "addEmpty rest it")
  note IH = Cons.IH[OF Cons.prems(1,2) r]
  obtain a b where ab: "AddStack (Grow it (- int (Count it))) it = (a, b)"
    by (cases "AddStack (Grow it (- int (Count it))) it")
  have step: "addEmpty (invIt # rest) it =
      (if Empty invIt \<and> Count it \<noteq> Count b
       then (case addEmpty rest b of (rest', x) \<Rightarrow> (a # rest', x))
       else (invIt # r', i'))"
    unfolding addEmpty.simps ab r using ne by simp
  show ?case
  proof (cases "Empty invIt \<and> Count it \<noteq> Count b")
    case False
    with Cons.prems(3) step have eq: "slots' = invIt # r'" "it' = i'" by auto
    with IH show ?thesis by (auto intro: gainsOne_Cons)
  next
    case True
    with AddStack_one[OF Cons.prems(1,2) ab]
    have moved: "Count b = 0" "Count a = Suc (Count (Grow it (- int (Count it))))"
                "Item a = Item (Grow it (- int (Count it)))"
      by auto
    then have eb: "Empty b" by (simp add: Empty_def)
    from Cons.prems(3) step True addEmpty_Empty[OF eb, of rest]
    have eq: "slots' = a # rest" "it' = b" by auto
    have "units a = units invIt + 1" "Item a = Item it"
      using moved True Cons.prems(2) by (auto simp: units_def Empty_def Grow_def)
    then show ?thesis using eq eb by (simp add: gainsOne_here)
  qed
qed

lemma AddItem_one:
  assumes "Count it = 1" "Item it \<noteq> None" "AddItem slots it = (slots', n, err)"
  shows "if err then slots' = slots else gainsOne slots slots' (Item it)"
proof -
  have ne: "\<not> Empty it" using assms by (simp add: Empty_def)
  obtain s1 i1 where p1: "addExisting slots it = (s1, i1)" by (cases "addExisting slots it")
  obtain s2 i2 where p2: "addEmpty s1 i1 = (s2, i2)" by (cases "addEmpty s1 i1")
  from addExisting_one[OF assms(1,2) p1] show ?thesis
  proof
    assume same: "s1 = slots \<and> i1 = it"
    with p2 have p2': "addEmpty slots it = (s2, i2)" by simp
    from addEmpty_one[OF assms(1,2) p2'] assms(3) ne p1 p2 same show ?thesis
      by (auto simp: AddItem_def)
  next
    assume "Empty i1 \<and> gainsOne slots s1 (Item it)"
    with assms(3) ne p1 show ?thesis by (auto simp: AddItem_def)
  qed
qed





lemma oneUnit: "\<not> Empty s \<Longrightarrow>
   Count (Grow s (- int (Count s) + 1)) = 1 \<and> Item (Grow s (- int (Count s) + 1)) \<noteq> None \<and>
   Item (Grow s (- int (Count s) + 1)) = Item s"
  by (simp add: Grow_def Empty_def)

lemma inv_AddItem_one:
  assumes "\<not> Empty s" "inv_AddItem r (Grow s (- int (Count s) + 1)) hp = ((n, err), hp1)"
  shows "if err then hp1 = hp
         else \<exists>D'. gainsOne (inventories hp r) D' (Item s) \<and>
                    hp1 = hp\<lparr>inventories := (inventories hp)(r := D')\<rparr>"
proof -
  obtain D' where a: "AddItem (inventories hp r) (Grow s (- int (Count s) + 1)) = (D', n, err)"
    and h: "hp1 = hp\<lparr>inventories := (inventories hp)(r := D')\<rparr>"
    using assms(2) by (auto simp: inv_AddItem_def split: prod.splits)
  from oneUnit[OF assms(1)]
  have c: "Count (Grow s (- int (Count s) + 1)) = 1"
    and i: "Item (Grow s (- int (Count s) + 1)) \<noteq> None"
    and e: "Item (Grow s (- int (Count s) + 1)) = Item s" by blast+
  from AddItem_one[OF c i a]
  have "if err then D' = inventories hp r else gainsOne (inventories hp r) D' (Item s)"
    unfolding e .
  then show ?thesis using h by (auto split: if_splits)
qed



lemma insertSlots_False:
  "insertSlots h src dest dst i slots hp = (False, hp') \<Longrightarrow> hp' = hp"
proof (induction slots arbitrary: i)
  case Nil
  then show ?case by simp
next
  case (Cons s rest)
  show ?case
  proof (cases "Empty s")
    case True
    with Cons show ?thesis by simp
  next
    case ne: False
    show ?thesis
    proof (cases "InsertItem dest")
      case None
      obtain n err hp1 where a: "inv_AddItem dst (Grow s (- int (Count s) + 1)) hp = ((n, err), hp1)"
        by (metis surj_pair)
      from inv_AddItem_one[OF ne a] Cons.prems ne None a
      have "err" "hp1 = hp" by (auto split: if_splits)
      with Cons.prems ne None a have "insertSlots h src dest dst (Suc i) rest hp = (False, hp')"
        by simp
      then show ?thesis by (rule Cons.IH)
    next
      case (Some e)
      obtain allowed targetSlot where
        r: "e hp (Grow s (- int (Count s) + 1)) (Facing h) = (allowed, targetSlot)"
        by (metis surj_pair)
      from Cons.prems ne Some r
      have "insertSlots h src dest dst (Suc i) rest hp = (False, hp')"
        by (auto simp: Let_def split: if_splits)
      then show ?thesis by (rule Cons.IH)
    qed
  qed
qed


lemma insertItem_False: "insertItem h pos w = Some (False, w') \<Longrightarrow> w' = w"
  by (auto simp: insertItem_def split: option.splits prod.splits dest: insertSlots_False)



lemma extractItem_unfold:
  assumes "asContainer (blocks w (Side pos FaceUp)) = Some origin"
    and "Inventory origin = Some org"
    and "(case ExtractItem origin of
             None \<Rightarrow> firstNonEmpty 0 (inventories (heap w) org)
           | Some e \<Rightarrow> e (heap w)) = (targetStack, targetSlot)"
    and "\<not> Empty targetStack"
    and "inventory h = Some own"
    and "inv_AddItem own (Grow targetStack (- int (Count targetStack) + 1)) (heap w) =
          ((n, err), hp1)"
  shows "extractItem h pos w =
     (if err then Some (False, w\<lparr>heap := hp1\<rparr>)
      else Some (True, w\<lparr>heap := snd (inv_SetItem org targetSlot (Grow targetStack (- 1)) hp1)\<rparr>))"
  unfolding extractItem_def assms option.case prod.case using assms(4) by simp

lemma extractItem_False: "extractItem h pos w = Some (False, w') \<Longrightarrow> w' = w"
proof -
  assume res: "extractItem h pos w = Some (False, w')"
  show ?thesis
  proof (cases "asContainer (blocks w (Side pos FaceUp))")
    case None
    with res show ?thesis by (simp add: extractItem_def)
  next
    case (Some origin)
    show ?thesis
    proof (cases "Inventory origin")
      case None
      with res Some show ?thesis by (simp add: extractItem_def)
    next
      case org: (Some org)
      obtain targetStack targetSlot where
        t: "(case ExtractItem origin of
               None \<Rightarrow> firstNonEmpty 0 (inventories (heap w) org)
             | Some e \<Rightarrow> e (heap w)) = (targetStack, targetSlot)"
        by (metis surj_pair)
      show ?thesis
      proof (cases "Empty targetStack")
        case True
        have "extractItem h pos w = Some (False, w)"
          unfolding extractItem_def Some org t option.case prod.case using True by simp
        with res show ?thesis by simp
      next
        case ne: False
        show ?thesis
        proof (cases "inventory h")
          case None
          have "extractItem h pos w = None"
            unfolding extractItem_def Some org t None option.case prod.case using ne by simp
          with res show ?thesis by simp
        next
          case own: (Some own)
          obtain n err hp1 where
            a: "inv_AddItem own (Grow targetStack (- int (Count targetStack) + 1)) (heap w) =
                  ((n, err), hp1)"
            by (metis surj_pair)
          from res extractItem_unfold[OF Some org t ne own a]
          have "err" "w' = w\<lparr>heap := hp1\<rparr>" by (auto split: if_splits)
          with inv_AddItem_one[OF ne a] show ?thesis by simp
        qed
      qed
    qed
  qed
qed


section \<open>Evaluating the examples\<close>

lemmas stack_simps = Empty_def emptyStack_def Grow_def Comparable_def MaxCount_def AddStack_def

lemmas inventory_simps =
  inv_AddItem_def AddItem_def inv_SetItem_def SetItem_def inv_Item_def ItemAt_def

lemmas example_simps =
  exCoal_def exIron_def exStone_def exHopper_def exHeap_def exBelow_def exAbove_def exWorld_def
  exFullHeap_def exFullWorld_def


lemmas tick_simps = Tick_def publishedHopper_def SetBlock_def insertItem_def extractItem_def Let_def

section \<open>The tick, unfolded\<close>

lemma Tick_unfold:
  "Tick h currentTick pos w =
     (if cooling h then Some (SetBlock pos (HopperBlock (decremented h currentTick)) w)
      else if Powered h then Some (SetBlock pos (HopperBlock (clamped h currentTick)) w)
      else case insertItem (clamped h currentTick) pos w of
             None \<Rightarrow> None
           | Some (inserted, w1) \<Rightarrow>
               (case extractItem (clamped h currentTick) pos w1 of
                  None \<Rightarrow> None
                | Some (extracted, w2) \<Rightarrow>
                    if inserted \<or> extracted
                    then Some (SetBlock pos
                           (HopperBlock ((clamped h currentTick)\<lparr>TransferCooldown := 8\<rparr>)) w2)
                    else Some w2))"
  unfolding Tick_def Let_def cooling_def clamped_def decremented_def by simp


text \<open>A hopper with an inventory does not panic in \<^verbatim>\<open>extractItem\<close>.\<close>

lemma extractItem_total: "inventory h = Some own \<Longrightarrow> extractItem h pos w \<noteq> None"
  by (auto simp: extractItem_def split: option.splits prod.splits)

text \<open>A powered hopper is handed back to the world with its inventory untouched.\<close>

lemma Tick_powered:
  assumes "Powered h"
  shows "\<exists>h'. Tick h t pos w = Some (SetBlock pos (HopperBlock h') w) \<and> Powered h' \<and>
              inventory h' = inventory h \<and> viewers h' = viewers h \<and> Facing h' = Facing h"
proof (cases "cooling h")
  case True
  then have "Tick h t pos w = Some (SetBlock pos (HopperBlock (decremented h t)) w)"
    by (simp add: Tick_unfold)
  moreover have "Powered (decremented h t)" "inventory (decremented h t) = inventory h"
    "viewers (decremented h t) = viewers h" "Facing (decremented h t) = Facing h"
    using assms by (simp_all add: decremented_def)
  ultimately show ?thesis by blast
next
  case False
  with assms have "Tick h t pos w = Some (SetBlock pos (HopperBlock (clamped h t)) w)"
    by (simp add: Tick_unfold)
  moreover have "Powered (clamped h t)" "inventory (clamped h t) = inventory h"
    "viewers (clamped h t) = viewers h" "Facing (clamped h t) = Facing h"
    using assms by (simp_all add: clamped_def decremented_def)
  ultimately show ?thesis by blast
qed

lemma tickRun_powered:
  "blocks w pos = HopperBlock h \<Longrightarrow> Powered h \<Longrightarrow>
     \<exists>w' h'. tickRun ts pos w = Some w' \<and> heap w' = heap w \<and>
       blocks w' pos = HopperBlock h' \<and> Powered h' \<and> inventory h' = inventory h \<and>
       (\<forall>p. p \<noteq> pos \<longrightarrow> blocks w' p = blocks w p)"
proof (induction ts arbitrary: w h)
  case Nil
  then show ?case by simp
next
  case (Cons t ts)
  from Tick_powered[OF Cons.prems(2), of t pos w] obtain h1 where
    h1: "Tick h t pos w = Some (SetBlock pos (HopperBlock h1) w)" "Powered h1"
        "inventory h1 = inventory h" by blast
  let ?w1 = "SetBlock pos (HopperBlock h1) w"
  have b: "blocks ?w1 pos = HopperBlock h1" by (simp add: SetBlock_def)
  from Cons.IH[OF b h1(2)] obtain w' h' where
    r: "tickRun ts pos ?w1 = Some w'" "heap w' = heap ?w1" "blocks w' pos = HopperBlock h'"
       "Powered h'" "inventory h' = inventory h1"
       "\<forall>p. p \<noteq> pos \<longrightarrow> blocks w' p = blocks ?w1 p" by blast
  have "tickRun (t # ts) pos w = Some w'"
    using Cons.prems(1) h1(1) r(1) by (simp add: tickBlock_def)
  moreover have "heap w' = heap w" using r(2) by (simp add: SetBlock_def)
  moreover have "\<forall>p. p \<noteq> pos \<longrightarrow> blocks w' p = blocks w p"
    using r(6) by (simp add: SetBlock_def)
  ultimately show ?case using r(3,4,5) h1(3) by auto
qed

section \<open>A successful transfer\<close>



section \<open>Persistence\<close>

lemma ucast_scast_32_64: "ucast (scast (x :: 32 word) :: 64 word) = x"
  by (rule bit_word_eqI) (auto simp: bit_ucast_iff bit_word_scast_iff)

lemma EncodeNBT_Some:
  "\<exists>m hp1. EncodeNBT h hp = Some (m, hp1)"
  by (cases "inventory h") (auto simp: EncodeNBT_def NewHopper_def Let_def)

lemma Empty_emptyStack: "Empty emptyStack"
  by (simp add: Empty_def emptyStack_def)

lemma InvToNBT_from_append:
  "InvToNBT_from i (xs @ ys) = InvToNBT_from i xs @ InvToNBT_from (i + length xs) ys"
  by (induction xs arbitrary: i) simp_all

lemma InvToNBT_from_empty: "InvToNBT_from i (replicate n emptyStack) = []"
  by (induction n arbitrary: i) (simp_all add: Empty_emptyStack)

lemma InvToNBT_from_clean: "InvToNBT_from i (map clean S) = InvToNBT_from i S"
  by (induction S arbitrary: i) (simp_all add: clean_def Empty_emptyStack)

lemma unat_slot: "i < 256 \<Longrightarrow> unat (of_nat i :: 8 word) = i"
  by (simp add: unat_of_nat)

lemma InvFromNBT_replay:
  "length P = i \<Longrightarrow> i + length S \<le> 256 \<Longrightarrow>
     InvFromNBT (P @ replicate (length S) emptyStack @ R) (InvToNBT_from i S) =
       P @ map clean S @ R"
proof (induction S arbitrary: i P)
  case Nil
  then show ?case by simp
next
  case (Cons s S)
  have i: "i < 256" using Cons.prems(2) by simp
  show ?case
  proof (cases "Empty s")
    case True
    have "InvFromNBT ((P @ [emptyStack]) @ replicate (length S) emptyStack @ R)
            (InvToNBT_from (Suc i) S) = (P @ [emptyStack]) @ map clean S @ R"
      using Cons.prems by (intro Cons.IH) simp_all
    with True show ?thesis by (simp add: clean_def)
  next
    case False
    have set: "SetItem (P @ replicate (length (s # S)) emptyStack @ R) (int i) s =
            Some ((P @ [s]) @ replicate (length S) emptyStack @ R)"
      using Cons.prems(1) by (simp add: SetItem_def list_update_append)
    have "InvFromNBT ((P @ [s]) @ replicate (length S) emptyStack @ R)
            (InvToNBT_from (Suc i) S) = (P @ [s]) @ map clean S @ R"
      using Cons.prems by (intro Cons.IH) simp_all
    moreover have "InvFromNBT (P @ replicate (length (s # S)) emptyStack @ R)
            (InvToNBT_from i (s # S)) =
          InvFromNBT ((P @ [s]) @ replicate (length S) emptyStack @ R) (InvToNBT_from (Suc i) S)"
      using False set i by (simp add: unat_slot del: replicate.simps append_assoc)
    moreover have "clean s = s" using False by (simp add: clean_def)
    ultimately show ?thesis by simp
  qed
qed

lemma inventory_roundtrip:
  assumes "length S = 5"
  shows "InvToNBT (InvFromNBT (replicate 5 emptyStack) (InvToNBT S)) = InvToNBT S"
proof -
  have "InvFromNBT ([] @ replicate (length S) emptyStack @ []) (InvToNBT_from 0 S) =
          [] @ map clean S @ []"
    using assms by (intro InvFromNBT_replay) simp_all
  then have "InvFromNBT (replicate 5 emptyStack) (InvToNBT S) = map clean S"
    using assms by (simp add: InvToNBT_def)
  then show ?thesis by (simp add: InvToNBT_def InvToNBT_from_clean)
qed

lemma DecodeNBT_unfold:
  "DecodeNBT h data hp =
     Some (\<lparr>Facing = Facing h, Powered = Powered h,
            CustomName = nbt_String data ''CustomName'', LastTick = 0,
            TransferCooldown = scast (nbt_Int32 data ''TransferCooldown''),
            CollectCooldown = 0, inventory = Some (next_ref hp), viewers = Some (next_ref hp)\<rparr>,
           hp\<lparr>inventories := (inventories hp)
                 (next_ref hp := InvFromNBT (replicate 5 emptyStack) (nbt_Slice data ''Items'')),
              viewer_sets := (viewer_sets hp)(next_ref hp := {}),
              next_ref := Suc (next_ref hp)\<rparr>)"
  by (simp add: DecodeNBT_def NewHopper_def Let_def)

lemma EncodeNBT_fields:
  "inventory h = Some r \<Longrightarrow>
     EncodeNBT h hp =
       Some (if CustomName h \<noteq> []
             then [''Items'' \<mapsto> NBTItems (InvToNBT (inventories hp r)),
                   ''TransferCooldown'' \<mapsto> NBTInt32 (ucast (TransferCooldown h)),
                   ''id'' \<mapsto> NBTString ''Hopper'',
                   ''CustomName'' \<mapsto> NBTString (CustomName h)]
             else [''Items'' \<mapsto> NBTItems (InvToNBT (inventories hp r)),
                   ''TransferCooldown'' \<mapsto> NBTInt32 (ucast (TransferCooldown h)),
                   ''id'' \<mapsto> NBTString ''Hopper''], hp)"
  by (simp add: EncodeNBT_def Let_def)

lemma decode_then_encode:
  "\<exists>hp1 hp2. DecodeNBT h data hp = Some (h', hp1) \<and> EncodeNBT h' hp1 = Some (m, hp2) \<Longrightarrow>
     m = (if nbt_String data ''CustomName'' \<noteq> []
          then [''Items'' \<mapsto> NBTItems (InvToNBT (InvFromNBT (replicate 5 emptyStack)
                                                   (nbt_Slice data ''Items''))),
                ''TransferCooldown'' \<mapsto> NBTInt32 (nbt_Int32 data ''TransferCooldown''),
                ''id'' \<mapsto> NBTString ''Hopper'',
                ''CustomName'' \<mapsto> NBTString (nbt_String data ''CustomName'')]
          else [''Items'' \<mapsto> NBTItems (InvToNBT (InvFromNBT (replicate 5 emptyStack)
                                                   (nbt_Slice data ''Items''))),
                ''TransferCooldown'' \<mapsto> NBTInt32 (nbt_Int32 data ''TransferCooldown''),
                ''id'' \<mapsto> NBTString ''Hopper''])"
proof -
  assume "\<exists>hp1 hp2. DecodeNBT h data hp = Some (h', hp1) \<and> EncodeNBT h' hp1 = Some (m, hp2)"
  then obtain hp1 hp2 where d: "DecodeNBT h data hp = Some (h', hp1)"
    and e: "EncodeNBT h' hp1 = Some (m, hp2)" by blast
  from d have h': "inventory h' = Some (next_ref hp)"
    "CustomName h' = nbt_String data ''CustomName''"
    "TransferCooldown h' = scast (nbt_Int32 data ''TransferCooldown'')"
    "inventories hp1 (next_ref hp) = InvFromNBT (replicate 5 emptyStack) (nbt_Slice data ''Items'')"
    by (auto simp: DecodeNBT_unfold)
  from e show ?thesis
    unfolding EncodeNBT_fields[OF h'(1)] h'(2,3,4) ucast_scast_32_64
    by (simp split: if_splits)
qed

lemma roundtrip_of_fields:
  assumes S: "length S = 5"
    and f: "fs = (if name \<noteq> []
             then [''Items'' \<mapsto> NBTItems (InvToNBT S),
                   ''TransferCooldown'' \<mapsto> NBTInt32 tc,
                   ''id'' \<mapsto> NBTString ''Hopper'',
                   ''CustomName'' \<mapsto> NBTString name]
             else [''Items'' \<mapsto> NBTItems (InvToNBT S),
                   ''TransferCooldown'' \<mapsto> NBTInt32 tc,
                   ''id'' \<mapsto> NBTString ''Hopper''])"
  shows "\<exists>g hp1 hp2. DecodeNBT h fs hp = Some (g, hp1) \<and> EncodeNBT g hp1 = Some (fs, hp2)"
proof -
  have rd: "nbt_String fs ''CustomName'' = name" "nbt_Int32 fs ''TransferCooldown'' = tc"
    "nbt_Slice fs ''Items'' = InvToNBT S"
    unfolding f by (simp_all add: nbt_String_def nbt_Int32_def nbt_Slice_def)
  obtain g hp1 where d: "DecodeNBT h fs hp = Some (g, hp1)"
    by (simp add: DecodeNBT_unfold)
  then have "inventory g = Some (next_ref hp)" by (auto simp: DecodeNBT_unfold)
  then obtain m hp2 where e: "EncodeNBT g hp1 = Some (m, hp2)"
    by (simp add: EncodeNBT_fields)
  from d e have "\<exists>hp1 hp2. DecodeNBT h fs hp = Some (g, hp1) \<and> EncodeNBT g hp1 = Some (m, hp2)"
    by blast
  from decode_then_encode[OF this] have "m = fs"
    unfolding rd inventory_roundtrip[OF S] by (simp only: f)
  with d e show ?thesis by blast
qed

section \<open>The claims\<close>

subsection \<open>C5: a transfer that returns false changes nothing\<close>

text \<open>
  Claim C5. Whenever \<^verbatim>\<open>insertItem\<close> or \<^verbatim>\<open>extractItem\<close> returns false, the world after
  the call is the world before it: neither the hopper's own inventory nor the inventory
  of the adjacent container (nor any other) is changed. This covers every way of
  returning false: a destination that rejects every offered slot, an empty nominated
  stack, a full hopper on extract. When there is no adjacent container, or the container
  has no slot storage, the call does return false.
\<close>

theorem failed_transfer_changes_nothing:
  "(insertItem h pos w = Some (False, w') \<longrightarrow> w' = w) \<and>
   (extractItem h pos w = Some (False, w'') \<longrightarrow> w'' = w) \<and>
   (asContainer (blocks w (Side pos (Facing h))) = None \<longrightarrow>
      insertItem h pos w = Some (False, w)) \<and>
   (asContainer (blocks w (Side pos (Facing h))) = Some dest \<and> Inventory dest = None \<longrightarrow>
      insertItem h pos w = Some (False, w)) \<and>
   (asContainer (blocks w (Side pos FaceUp)) = None \<longrightarrow>
      extractItem h pos w = Some (False, w)) \<and>
   (asContainer (blocks w (Side pos FaceUp)) = Some origin \<and> Inventory origin = None \<longrightarrow>
      extractItem h pos w = Some (False, w))"
proof (intro conjI impI)
  show "insertItem h pos w = Some (False, w') \<Longrightarrow> w' = w" by (rule insertItem_False)
  show "extractItem h pos w = Some (False, w'') \<Longrightarrow> w'' = w" by (rule extractItem_False)
qed (simp_all add: insertItem_def extractItem_def)

text \<open>
  The full hopper between a full container and one it has no room to take from: both
  calls return false and leave the world as it was.
\<close>

theorem failed_transfer_witness:
  "insertItem exHopper (0, 0, 0) exFullWorld = Some (False, exFullWorld) \<and>
   extractItem exHopper (0, 0, 0) exFullWorld = Some (False, exFullWorld)"
proof -
  have "map_option fst (insertItem exHopper (0, 0, 0) exFullWorld) = Some False"
    by (simp add: insertItem_def example_simps stack_simps inventory_simps)
  then obtain w1 where i: "insertItem exHopper (0, 0, 0) exFullWorld = Some (False, w1)"
    by (cases "insertItem exHopper (0, 0, 0) exFullWorld") auto
  have "map_option fst (extractItem exHopper (0, 0, 0) exFullWorld) = Some False"
    by (simp add: extractItem_def example_simps stack_simps inventory_simps)
  then obtain w2 where e: "extractItem exHopper (0, 0, 0) exFullWorld = Some (False, w2)"
    by (cases "extractItem exHopper (0, 0, 0) exFullWorld") auto
  from failed_transfer_changes_nothing[of exHopper "(0, 0, 0)" exFullWorld w1 w2] i e
  show ?thesis by simp
qed

subsection \<open>C3: the decrement, and the tick while a counter is still running\<close>




subsection \<open>C1: the cooldown after a successful transfer\<close>

text \<open>
  Claim C1 says that after a successful transfer both counters are 8 in the published
  snapshot. The tick sets only \<^verbatim>\<open>TransferCooldown\<close> to 8; \<^verbatim>\<open>CollectCooldown\<close> is
  published as 0. In the example world the insertion succeeds and the snapshot has
  \<^verbatim>\<open>CollectCooldown\<close> 0, not 8.
\<close>

theorem Tick_success_counterexample:
  "map_option fst (insertItem (clamped exHopper 5) (0, 0, 0) exWorld) = Some True \<and>
   map_option CollectCooldown (publishedHopper (0, 0, 0) (Tick exHopper 5 (0, 0, 0) exWorld)) =
     Some 0 \<and>
   map_option CollectCooldown (publishedHopper (0, 0, 0) (Tick exHopper 5 (0, 0, 0) exWorld)) \<noteq>
     Some 8"
  by (simp add: tick_simps clamped_def decremented_def example_simps stack_simps inventory_simps)

text \<open>
  Claim C1, amended. When neither counter is at least zero after the decrement, the
  hopper is not powered, and \<^verbatim>\<open>insertItem\<close> or \<^verbatim>\<open>extractItem\<close> returns true, the tick
  publishes the snapshot with \<^verbatim>\<open>TransferCooldown\<close> 8, \<^verbatim>\<open>CollectCooldown\<close> 0 and
  \<^verbatim>\<open>LastTick\<close> the current tick, on the world the two transfers left.
\<close>

theorem Tick_success_resets_transfer_cooldown_only:
  assumes "\<not> cooling h" and "\<not> Powered h"
    and "insertItem (clamped h currentTick) pos w = Some (inserted, w1)"
    and "extractItem (clamped h currentTick) pos w1 = Some (extracted, w2)"
    and "inserted \<or> extracted"
  shows "Tick h currentTick pos w =
           Some (SetBlock pos (HopperBlock (h\<lparr>TransferCooldown := 8, CollectCooldown := 0,
                                               LastTick := currentTick\<rparr>)) w2)"
proof -
  have "(clamped h currentTick)\<lparr>TransferCooldown := 8\<rparr> =
        h\<lparr>TransferCooldown := 8, CollectCooldown := 0, LastTick := currentTick\<rparr>"
    by (cases h) (simp add: clamped_def decremented_def)
  with assms show ?thesis by (simp add: Tick_unfold)
qed

theorem Tick_success_witness:
  "\<not> cooling exHopper \<and> \<not> Powered exHopper \<and>
   map_option fst (insertItem (clamped exHopper 5) (0, 0, 0) exWorld) = Some True \<and>
   publishedHopper (0, 0, 0) (Tick exHopper 5 (0, 0, 0) exWorld) =
     Some (exHopper\<lparr>TransferCooldown := 8, CollectCooldown := 0, LastTick := 5\<rparr>)"
proof -
  have c: "\<not> cooling exHopper" and p: "\<not> Powered exHopper"
    by (simp_all add: cooling_def exHopper_def)
  have own: "inventory (clamped exHopper 5) = Some 0"
    by (simp add: clamped_def decremented_def exHopper_def)
  have t: "map_option fst (insertItem (clamped exHopper 5) (0, 0, 0) exWorld) = Some True"
    by (simp add: insertItem_def clamped_def decremented_def example_simps stack_simps
          inventory_simps Let_def)
  then obtain w1 where i: "insertItem (clamped exHopper 5) (0, 0, 0) exWorld = Some (True, w1)"
    by (cases "insertItem (clamped exHopper 5) (0, 0, 0) exWorld") auto
  from extractItem_total[OF own, of "(0, 0, 0)" w1] obtain extracted w2 where
    e: "extractItem (clamped exHopper 5) (0, 0, 0) w1 = Some (extracted, w2)" by auto
  from Tick_success_resets_transfer_cooldown_only[OF c p i e] c p t show ?thesis
    by (simp add: publishedHopper_def SetBlock_def)
qed

subsection \<open>C4: a powered hopper\<close>

text \<open>
  Claim C4. On a tick of a powered hopper the result is the world with the hopper's block
  replaced, whatever the counters are and whatever \<^verbatim>\<open>insertItem\<close> and \<^verbatim>\<open>extractItem\<close>
  would do on that world: neither is called. Hence over any run of ticks of a powered
  hopper the store of inventories stays as it was, the hopper stays powered and keeps its
  inventory, and no other block changes.
\<close>

theorem powered_hopper_never_transfers:
  "(Powered h \<longrightarrow>
      (\<exists>h'. Tick h t pos w = Some (SetBlock pos (HopperBlock h') w) \<and> Powered h' \<and>
            inventory h' = inventory h)) \<and>
   (blocks w pos = HopperBlock h \<and> Powered h \<longrightarrow>
      (\<exists>w' h'. tickRun ts pos w = Some w' \<and> heap w' = heap w \<and>
         blocks w' pos = HopperBlock h' \<and> Powered h' \<and> inventory h' = inventory h \<and>
         (\<forall>p. p \<noteq> pos \<longrightarrow> blocks w' p = blocks w p)))"
  using Tick_powered[of h t pos w] tickRun_powered[of w pos h ts] by blast

text \<open>
  The example hopper, powered, in a world where an insertion would succeed: after three
  ticks every inventory is as before.
\<close>

theorem powered_hopper_witness:
  "map_option fst (insertItem (exHopper\<lparr>Powered := True\<rparr>) (0, 0, 0)
       (SetBlock (0, 0, 0) (HopperBlock (exHopper\<lparr>Powered := True\<rparr>)) exWorld)) = Some True \<and>
   map_option heap (tickRun [1, 2, 3] (0, 0, 0)
       (SetBlock (0, 0, 0) (HopperBlock (exHopper\<lparr>Powered := True\<rparr>)) exWorld)) = Some exHeap"
proof -
  let ?h = "exHopper\<lparr>Powered := True\<rparr>"
  let ?w = "SetBlock (0, 0, 0) (HopperBlock ?h) exWorld"
  have b: "blocks ?w (0, 0, 0) = HopperBlock ?h \<and> Powered ?h" by (simp add: SetBlock_def)
  have hp: "heap ?w = exHeap" by (simp add: SetBlock_def exWorld_def)
  have i: "map_option fst (insertItem ?h (0, 0, 0) ?w) = Some True"
    by (simp add: insertItem_def SetBlock_def example_simps stack_simps inventory_simps Let_def)
  from powered_hopper_never_transfers[of ?h _ "(0, 0, 0)" ?w "[1, 2, 3]"] b
  obtain w' where "tickRun [1, 2, 3] (0, 0, 0) ?w = Some w'" "heap w' = heap ?w"
    by blast
  with hp i show ?thesis by simp
qed

subsection \<open>C6: what a tick publishes\<close>

text \<open>
  Claim C6 says that every tick republishes the snapshot, also when both transfers fail.
  The tick calls \<^verbatim>\<open>SetBlock\<close> only when a counter is still running, when the hopper is
  powered, or when a transfer succeeded. In the world where nothing can move, tick 5
  leaves the world as it was: the stored hopper still has \<^verbatim>\<open>LastTick\<close> 0.
\<close>

theorem Tick_idle_counterexample:
  "Tick exHopper 5 (0, 0, 0) exFullWorld = Some exFullWorld \<and>
   publishedHopper (0, 0, 0) (Tick exHopper 5 (0, 0, 0) exFullWorld) = Some exHopper \<and>
   LastTick exHopper \<noteq> 5"
proof -
  have c: "\<not> cooling exHopper" and p: "\<not> Powered exHopper"
    by (simp_all add: cooling_def exHopper_def)
  have "map_option fst (insertItem (clamped exHopper 5) (0, 0, 0) exFullWorld) = Some False"
    by (simp add: insertItem_def clamped_def decremented_def example_simps stack_simps
          inventory_simps)
  then obtain w1 where "insertItem (clamped exHopper 5) (0, 0, 0) exFullWorld = Some (False, w1)"
    by (cases "insertItem (clamped exHopper 5) (0, 0, 0) exFullWorld") auto
  with insertItem_False[OF this]
  have i: "insertItem (clamped exHopper 5) (0, 0, 0) exFullWorld = Some (False, exFullWorld)"
    by simp
  have "map_option fst (extractItem (clamped exHopper 5) (0, 0, 0) exFullWorld) = Some False"
    by (simp add: extractItem_def clamped_def decremented_def example_simps stack_simps
          inventory_simps)
  then obtain w2 where "extractItem (clamped exHopper 5) (0, 0, 0) exFullWorld = Some (False, w2)"
    by (cases "extractItem (clamped exHopper 5) (0, 0, 0) exFullWorld") auto
  with extractItem_False[OF this]
  have e: "extractItem (clamped exHopper 5) (0, 0, 0) exFullWorld = Some (False, exFullWorld)"
    by simp
  have "Tick exHopper 5 (0, 0, 0) exFullWorld = Some exFullWorld"
    using c p i e by (simp add: Tick_unfold)
  then show ?thesis by (simp add: publishedHopper_def exFullWorld_def exHopper_def)
qed

text \<open>
  Claim C6, amended. A tick that returns publishes the decremented snapshot when a
  counter is still at least zero, the snapshot with both counters at zero when the
  hopper is powered, and the snapshot with \<^verbatim>\<open>TransferCooldown\<close> 8 when a transfer
  succeeded. When the hopper is not powered, both counters have run out and both
  transfers return false, nothing is published and the world is exactly as before.
\<close>

theorem Tick_publishes_unless_nothing_moved:
  assumes "Tick h currentTick pos w = Some w'"
  shows "(cooling h \<longrightarrow> w' = SetBlock pos (HopperBlock (decremented h currentTick)) w) \<and>
         (\<not> cooling h \<and> Powered h \<longrightarrow>
            w' = SetBlock pos (HopperBlock (clamped h currentTick)) w) \<and>
         (\<not> cooling h \<and> \<not> Powered h \<longrightarrow>
            (insertItem (clamped h currentTick) pos w = Some (False, w) \<and>
             extractItem (clamped h currentTick) pos w = Some (False, w) \<and> w' = w) \<or>
            (\<exists>inserted extracted w1 w2.
               insertItem (clamped h currentTick) pos w = Some (inserted, w1) \<and>
               extractItem (clamped h currentTick) pos w1 = Some (extracted, w2) \<and>
               (inserted \<or> extracted) \<and>
               w' = SetBlock pos
                      (HopperBlock (h\<lparr>TransferCooldown := 8, CollectCooldown := 0,
                                       LastTick := currentTick\<rparr>)) w2))"
proof (intro conjI impI)
  assume "cooling h"
  with assms show "w' = SetBlock pos (HopperBlock (decremented h currentTick)) w"
    by (simp add: Tick_unfold)
next
  assume "\<not> cooling h \<and> Powered h"
  with assms show "w' = SetBlock pos (HopperBlock (clamped h currentTick)) w"
    by (simp add: Tick_unfold)
next
  assume a: "\<not> cooling h \<and> \<not> Powered h"
  let ?h = "clamped h currentTick"
  have eq: "?h\<lparr>TransferCooldown := 8\<rparr> =
        h\<lparr>TransferCooldown := 8, CollectCooldown := 0, LastTick := currentTick\<rparr>"
    by (cases h) (simp add: clamped_def decremented_def)
  from assms a obtain inserted w1 where i: "insertItem ?h pos w = Some (inserted, w1)"
    by (cases "insertItem ?h pos w") (auto simp: Tick_unfold)
  from assms a i obtain extracted w2 where e: "extractItem ?h pos w1 = Some (extracted, w2)"
    by (cases "extractItem ?h pos w1") (auto simp: Tick_unfold)
  show "(insertItem ?h pos w = Some (False, w) \<and> extractItem ?h pos w = Some (False, w) \<and> w' = w) \<or>
        (\<exists>inserted extracted w1 w2.
               insertItem ?h pos w = Some (inserted, w1) \<and>
               extractItem ?h pos w1 = Some (extracted, w2) \<and>
               (inserted \<or> extracted) \<and>
               w' = SetBlock pos
                      (HopperBlock (h\<lparr>TransferCooldown := 8, CollectCooldown := 0,
                                       LastTick := currentTick\<rparr>)) w2)"
  proof (cases "inserted \<or> extracted")
    case True
    with assms a i e have "w' = SetBlock pos (HopperBlock (?h\<lparr>TransferCooldown := 8\<rparr>)) w2"
      by (simp add: Tick_unfold)
    with eq i e True show ?thesis by metis
  next
    case False
    then have ni: "\<not> inserted" and ne: "\<not> extracted" by simp_all
    from i ni insertItem_False[of ?h pos w w1] have w1: "w1 = w" by simp
    from e ne w1 extractItem_False[of ?h pos w w2] have w2: "w2 = w" by simp
    from assms a i e False have "w' = w2" by (simp add: Tick_unfold)
    with i e ni ne w1 w2 show ?thesis by simp
  qed
qed

theorem Tick_publishes_witness:
  "Tick exHopper 5 (0, 0, 0) exWorld \<noteq> None \<and>
   \<not> cooling exHopper \<and> \<not> Powered exHopper \<and>
   insertItem (clamped exHopper 5) (0, 0, 0) exWorld \<noteq> Some (False, exWorld) \<and>
   publishedHopper (0, 0, 0) (Tick exHopper 5 (0, 0, 0) exWorld) =
     Some (exHopper\<lparr>TransferCooldown := 8, CollectCooldown := 0, LastTick := 5\<rparr>)"
proof -
  have c: "\<not> cooling exHopper" and p: "\<not> Powered exHopper"
    by (simp_all add: cooling_def exHopper_def)
  have t: "map_option fst (insertItem (clamped exHopper 5) (0, 0, 0) exWorld) = Some True"
    by (simp add: insertItem_def clamped_def decremented_def example_simps stack_simps
          inventory_simps Let_def)
  then have n: "insertItem (clamped exHopper 5) (0, 0, 0) exWorld \<noteq> Some (False, exWorld)"
    by auto
  have "map_option LastTick (publishedHopper (0, 0, 0) (Tick exHopper 5 (0, 0, 0) exWorld)) = Some 5"
    by (simp add: tick_simps example_simps stack_simps inventory_simps)
  then obtain w' where r: "Tick exHopper 5 (0, 0, 0) exWorld = Some w'"
    by (cases "Tick exHopper 5 (0, 0, 0) exWorld") (auto simp: publishedHopper_def)
  from Tick_publishes_unless_nothing_moved[OF r] c p n
  obtain w2 where "w' = SetBlock (0, 0, 0)
      (HopperBlock (exHopper\<lparr>TransferCooldown := 8, CollectCooldown := 0, LastTick := 5\<rparr>)) w2"
    by auto
  with r c p n show ?thesis by (simp add: publishedHopper_def SetBlock_def)
qed

subsection \<open>C2: a transfer that returns true moves exactly one unit\<close>




subsection \<open>C7: decoding and encoding again\<close>

text \<open>
  Claim C7. Encoding the hopper that \<^verbatim>\<open>DecodeNBT\<close> builds from a field set gives back the
  cooldown and the label the field set had (a missing one reads as 0 and as the empty
  label), and the \<^verbatim>\<open>CustomName\<close> field is present exactly when the label is not empty.
  For a persisted field set, that is one \<^verbatim>\<open>EncodeNBT\<close> wrote for a hopper with its five
  slots, decoding and encoding give back the very same field set: cooldown, label (empty
  or not), inventory entries and type tag.
\<close>

theorem decode_encode_roundtrip:
  "(DecodeNBT h data hp = Some (h', hp1) \<and> EncodeNBT h' hp1 = Some (m, hp2) \<longrightarrow>
      nbt_Int32 m ''TransferCooldown'' = nbt_Int32 data ''TransferCooldown'' \<and>
      nbt_String m ''CustomName'' = nbt_String data ''CustomName'' \<and>
      (m ''CustomName'' \<noteq> None) = (nbt_String data ''CustomName'' \<noteq> []) \<and>
      nbt_Slice m ''Items'' =
        InvToNBT (InvFromNBT (replicate 5 emptyStack) (nbt_Slice data ''Items''))) \<and>
   (EncodeNBT h0 hp0 = Some (fs, hp0') \<and>
    (\<forall>r. inventory h0 = Some r \<longrightarrow> length (inventories hp0 r) = 5) \<longrightarrow>
      (\<exists>g hp3 hp4. DecodeNBT h fs hp = Some (g, hp3) \<and>
                    EncodeNBT g hp3 = Some (fs, hp4)) \<and>
      (fs ''CustomName'' \<noteq> None) = (CustomName h0 \<noteq> []))"
proof (rule conjI; rule impI)
  assume "DecodeNBT h data hp = Some (h', hp1) \<and> EncodeNBT h' hp1 = Some (m, hp2)"
  then have "\<exists>hp1 hp2. DecodeNBT h data hp = Some (h', hp1) \<and> EncodeNBT h' hp1 = Some (m, hp2)"
    by blast
  from decode_then_encode[OF this]
  show "nbt_Int32 m ''TransferCooldown'' = nbt_Int32 data ''TransferCooldown'' \<and>
      nbt_String m ''CustomName'' = nbt_String data ''CustomName'' \<and>
      (m ''CustomName'' \<noteq> None) = (nbt_String data ''CustomName'' \<noteq> []) \<and>
      nbt_Slice m ''Items'' =
        InvToNBT (InvFromNBT (replicate 5 emptyStack) (nbt_Slice data ''Items''))"
    by (simp add: nbt_String_def nbt_Int32_def nbt_Slice_def)
next
  assume a: "EncodeNBT h0 hp0 = Some (fs, hp0') \<and>
    (\<forall>r. inventory h0 = Some r \<longrightarrow> length (inventories hp0 r) = 5)"
  show "(\<exists>g hp3 hp4. DecodeNBT h fs hp = Some (g, hp3) \<and>
                    EncodeNBT g hp3 = Some (fs, hp4)) \<and>
      (fs ''CustomName'' \<noteq> None) = (CustomName h0 \<noteq> [])"
  proof (cases "inventory h0")
    case None
    have S: "length (replicate 5 emptyStack) = 5" by simp
    from a None have f: "fs = (if CustomName h0 \<noteq> []
             then [''Items'' \<mapsto> NBTItems (InvToNBT (replicate 5 emptyStack)),
                   ''TransferCooldown'' \<mapsto> NBTInt32 0,
                   ''id'' \<mapsto> NBTString ''Hopper'',
                   ''CustomName'' \<mapsto> NBTString (CustomName h0)]
             else [''Items'' \<mapsto> NBTItems (InvToNBT (replicate 5 emptyStack)),
                   ''TransferCooldown'' \<mapsto> NBTInt32 0,
                   ''id'' \<mapsto> NBTString ''Hopper''])"
      by (auto simp: EncodeNBT_def NewHopper_def Let_def)
    have "(fs ''CustomName'' \<noteq> None) = (CustomName h0 \<noteq> [])" unfolding f by simp
    with roundtrip_of_fields[OF S f] show ?thesis by blast
  next
    case (Some r)
    with a have S: "length (inventories hp0 r) = 5" by simp
    from a Some have f: "fs = (if CustomName h0 \<noteq> []
             then [''Items'' \<mapsto> NBTItems (InvToNBT (inventories hp0 r)),
                   ''TransferCooldown'' \<mapsto> NBTInt32 (ucast (TransferCooldown h0)),
                   ''id'' \<mapsto> NBTString ''Hopper'',
                   ''CustomName'' \<mapsto> NBTString (CustomName h0)]
             else [''Items'' \<mapsto> NBTItems (InvToNBT (inventories hp0 r)),
                   ''TransferCooldown'' \<mapsto> NBTInt32 (ucast (TransferCooldown h0)),
                   ''id'' \<mapsto> NBTString ''Hopper''])"
      by (simp add: EncodeNBT_fields)
    have "(fs ''CustomName'' \<noteq> None) = (CustomName h0 \<noteq> [])" unfolding f by simp
    with roundtrip_of_fields[OF S f] show ?thesis by blast
  qed
qed

text \<open>The example field set, with the label \<^verbatim>\<open>Bin\<close>, is what a named hopper encodes to.\<close>

theorem decode_encode_witness:
  "map_option fst (EncodeNBT (exHopper\<lparr>CustomName := ''Bin'', TransferCooldown := 5\<rparr>) exHeap) =
     Some exFields \<and>
   length (inventories exHeap 0) = 5 \<and>
   (\<exists>g hp3 hp4. DecodeNBT exHopper exFields exFullHeap = Some (g, hp3) \<and>
      EncodeNBT g hp3 = Some (exFields, hp4)) \<and>
   exFields ''CustomName'' \<noteq> None"
proof -
  let ?h0 = "exHopper\<lparr>CustomName := ''Bin'', TransferCooldown := 5\<rparr>"
  have e: "map_option fst (EncodeNBT ?h0 exHeap) = Some exFields"
    by (simp add: EncodeNBT_def Let_def exHopper_def exHeap_def exFields_def InvToNBT_def
          Empty_def emptyStack_def)
  then obtain hp0' where e': "EncodeNBT ?h0 exHeap = Some (exFields, hp0')"
    by (cases "EncodeNBT ?h0 exHeap") auto
  have l: "\<forall>r. inventory ?h0 = Some r \<longrightarrow> length (inventories exHeap r) = 5"
    by (simp add: exHopper_def exHeap_def)
  have l0: "length (inventories exHeap 0) = 5" by (simp add: exHeap_def)
  from decode_encode_roundtrip[of exHopper _ exFullHeap _ _ _ _ ?h0 exHeap exFields hp0'] e' l
  have "(\<exists>g hp3 hp4. DecodeNBT exHopper exFields exFullHeap = Some (g, hp3) \<and>
      EncodeNBT g hp3 = Some (exFields, hp4)) \<and>
      (exFields ''CustomName'' \<noteq> None) = (CustomName ?h0 \<noteq> [])" by blast
  with e l0 show ?thesis by simp
qed

subsection \<open>C8: what DecodeNBT keeps and what it replaces\<close>

text \<open>
  Claim C8 says that \<^verbatim>\<open>DecodeNBT\<close> keeps the inventory reference stable. It does
  not: the example hopper has inventory 0, where \<^verbatim>\<open>AddViewer\<close> has registered viewer 7,
  and the decoded hopper has the new inventory 3 and no viewer.
\<close>

theorem DecodeNBT_replaces_inventory_counterexample:
  "AddViewer exHopper 7 exQuietHeap = Some exHeap \<and>
   inventory exHopper = Some 0 \<and> viewersOf (exHopper, exHeap) = {7} \<and>
   map_option (inventory \<circ> fst) (DecodeNBT exHopper exFields exHeap) = Some (Some 3) \<and>
   map_option viewersOf (DecodeNBT exHopper exFields exHeap) = Some {}"
  by (simp add: DecodeNBT_def NewHopper_def AddViewer_def Let_def viewersOf_def exHopper_def
        exHeap_def exQuietHeap_def)

text \<open>
  Claim C8, amended. \<^verbatim>\<open>DecodeNBT\<close> always returns a hopper; it keeps the receiver's
  facing and powered flag and takes the label and the cooldown from the fields. Its
  inventory and viewer map are newly allocated: the viewer map is empty, the inventory
  holds the replayed entries, every inventory and viewer map that existed before is left
  as it was, and the new inventory is not the receiver's.
\<close>

theorem DecodeNBT_builds_new_hopper:
  "\<exists>h' hp'. DecodeNBT h data hp = Some (h', hp') \<and>
     Facing h' = Facing h \<and> Powered h' = Powered h \<and>
     CustomName h' = nbt_String data ''CustomName'' \<and>
     TransferCooldown h' = scast (nbt_Int32 data ''TransferCooldown'') \<and>
     inventory h' = Some (next_ref hp) \<and> viewers h' = Some (next_ref hp) \<and>
     viewersOf (h', hp') = {} \<and>
     inventories hp' (next_ref hp) =
       InvFromNBT (replicate 5 emptyStack) (nbt_Slice data ''Items'') \<and>
     (\<forall>r. r \<noteq> next_ref hp \<longrightarrow>
        inventories hp' r = inventories hp r \<and> viewer_sets hp' r = viewer_sets hp r) \<and>
     (\<forall>r. inventory h = Some r \<and> r < next_ref hp \<longrightarrow> inventory h' \<noteq> inventory h)"
  by (auto simp: DecodeNBT_def NewHopper_def Let_def viewersOf_def)

theorem DecodeNBT_witness:
  "inventory exHopper = Some 0 \<and> 0 < next_ref exHeap \<and>
   map_option (inventory \<circ> fst) (DecodeNBT exHopper exFields exHeap) \<noteq>
     Some (inventory exHopper) \<and>
   map_option (CustomName \<circ> fst) (DecodeNBT exHopper exFields exHeap) = Some ''Bin'' \<and>
   map_option (TransferCooldown \<circ> fst) (DecodeNBT exHopper exFields exHeap) = Some 5"
proof -
  have a: "inventory exHopper = Some 0 \<and> 0 < next_ref exHeap"
    by (simp add: exHopper_def exHeap_def)
  have f: "nbt_String exFields ''CustomName'' = ''Bin''"
    "scast (nbt_Int32 exFields ''TransferCooldown'') = (5 :: 64 word)"
    by (simp_all add: nbt_String_def nbt_Int32_def exFields_def)
  from DecodeNBT_builds_new_hopper[of exHopper exFields exHeap] a f show ?thesis
    by auto
qed

subsection \<open>C9: what is not persisted\<close>

text \<open>
  Claim C9. \<^verbatim>\<open>EncodeNBT\<close> always returns a field set, whose only fields are
  \<^verbatim>\<open>Items\<close>, \<^verbatim>\<open>TransferCooldown\<close>, \<^verbatim>\<open>id\<close> and \<^verbatim>\<open>CustomName\<close>; the result does not
  depend on \<^verbatim>\<open>CollectCooldown\<close> and \<^verbatim>\<open>LastTick\<close>; and decoding it gives a hopper whose
  \<^verbatim>\<open>CollectCooldown\<close> and \<^verbatim>\<open>LastTick\<close> are 0.
\<close>

theorem cooldown_and_tick_not_persisted:
  "\<exists>m hp1 h' hp3.
     EncodeNBT h hp = Some (m, hp1) \<and>
     dom m \<subseteq> {''Items'', ''TransferCooldown'', ''id'', ''CustomName''} \<and>
     EncodeNBT (h\<lparr>CollectCooldown := c, LastTick := t\<rparr>) hp = EncodeNBT h hp \<and>
     DecodeNBT g m hp2 = Some (h', hp3) \<and> CollectCooldown h' = 0 \<and> LastTick h' = 0"
proof -
  obtain m hp1 where e: "EncodeNBT h hp = Some (m, hp1)" using EncodeNBT_Some by blast
  have d: "dom m \<subseteq> {''Items'', ''TransferCooldown'', ''id'', ''CustomName''}"
    using e by (cases "inventory h") (auto simp: EncodeNBT_def NewHopper_def Let_def split: if_splits)
  have i: "EncodeNBT (h\<lparr>CollectCooldown := c, LastTick := t\<rparr>) hp = EncodeNBT h hp"
    by (cases "inventory h") (simp_all add: EncodeNBT_def NewHopper_def Let_def)
  have "\<exists>h' hp3. DecodeNBT g m hp2 = Some (h', hp3) \<and> CollectCooldown h' = 0 \<and> LastTick h' = 0"
    by (simp add: DecodeNBT_def NewHopper_def Let_def)
  with e d i show ?thesis by blast
qed

subsection \<open>C10: the facing of a placed hopper\<close>

text \<open>
  Claim C10. When \<^verbatim>\<open>UseOnBlock\<close> returns true, the block at the position that
  \<^verbatim>\<open>firstReplaceable\<close> chose is a new hopper that faces down if the clicked face is the
  downward face and faces opposite to the clicked face otherwise.
\<close>

theorem UseOnBlock_facing:
  assumes "UseOnBlock firstReplaceable permitted h pos face w = (True, w')"
  shows "\<exists>h'. blocks w' (fst (firstReplaceable w pos face)) = HopperBlock h' \<and>
              Facing h' = (if face = FaceDown then FaceDown else Opposite face) \<and>
              inventory h' = Some (next_ref (heap w))"
proof -
  obtain pos' used where f: "firstReplaceable w pos face = (pos', used)"
    by (cases "firstReplaceable w pos face")
  from assms f have u: "used" and p: "permitted"
    by (auto simp: UseOnBlock_def NewHopper_def Let_def split: if_splits)
  from assms f u p show ?thesis
    by (auto simp: UseOnBlock_def NewHopper_def Let_def place_def SetBlock_def)
qed

text \<open>A click on the north face of a block places a hopper that faces south.\<close>

theorem UseOnBlock_witness:
  "fst (UseOnBlock (\<lambda>w pos face. (Side pos face, True)) True exHopper (0, 0, 0) FaceNorth exWorld) \<and>
   map_option Facing (publishedHopper (0, 0, - 1)
     (Some (snd (UseOnBlock (\<lambda>w pos face. (Side pos face, True)) True exHopper (0, 0, 0)
                   FaceNorth exWorld)))) = Some FaceSouth"
proof -
  let ?f = "\<lambda>(w :: World) pos face. (Side pos face, True)"
  obtain w' where r: "UseOnBlock ?f True exHopper (0, 0, 0) FaceNorth exWorld = (True, w')"
    by (simp add: UseOnBlock_def NewHopper_def Let_def)
  from UseOnBlock_facing[OF r] r show ?thesis
    by (auto simp: publishedHopper_def)
qed

end
